theory Spec2Isabelle
  imports Main
begin

section \<open>Login-streak engine of the student well-being application (src/api/streaks.js)\<close>

text \<open>
  The engine talks to two tables of a hosted database through a client library and uses
  a date library (date-fns) for calendar arithmetic. Both libraries are outside the
  repository; the theory fixes what they do as follows.

  \<^item> A calendar day (\<^verbatim>\<open>'yyyy-MM-dd'\<close>) is the number of the day, counted from
    1970-01-01, an \<open>int\<close>; \<^verbatim>\<open>subDays(d, n)\<close> followed by \<^verbatim>\<open>format\<close> is \<open>d - n\<close>.
  \<^item> \<^verbatim>\<open>new Date('yyyy-MM-dd')\<close> is the instant of that day's midnight in UTC, and
    \<^verbatim>\<open>differenceInDays\<close> compares two instants by their wall-clock times in the time
    zone of the runtime; the time zone is a parameter of the operations that call it
    (see the subsection on the date library).
  \<^item> \<^verbatim>\<open>format(new Date(), 'yyyy-MM-dd')\<close> reads the clock; the day it returns is the
    parameter \<open>today\<close> of each operation, one reading per request.
  \<^item> JavaScript numbers that count days are \<open>int\<close>.
\<close>

type_synonym date = int
type_synonym student_id = nat

subsection \<open>Milestone achievements\<close>

record entry =
  milestone :: int
  title :: string

record achieved_entry = entry +
  achieved :: bool

record upcoming_entry = entry +
  daysRemaining :: int

record achievements =
  current :: "achieved_entry list"
  upcoming :: "upcoming_entry option"

text \<open>\<^verbatim>\<open>${days}\<close> inside a template literal: the decimal digits of a whole number,
  most significant first, after a minus sign when it is negative.\<close>

definition digit_char :: "nat \<Rightarrow> char" where
  "digit_char d = char_of (of_char CHR ''0'' + d :: nat)"

fun decimal_digits :: "nat \<Rightarrow> string \<Rightarrow> string" where
  "decimal_digits n acc =
     (if 10 \<le> n then decimal_digits (n div 10) (digit_char (n mod 10) # acc)
      else digit_char n # acc)"

declare decimal_digits.simps [simp del]

definition template_number :: "int \<Rightarrow> string" where
  "template_number days =
     (if days < 0 then CHR ''-'' # decimal_digits (nat (- days)) []
      else decimal_digits (nat days) [])"

text \<open>
  The titles table of \<^verbatim>\<open>getAchievementTitle\<close>. Each title starts with a pictograph; its
  bytes are written as they stand in the source file.
\<close>

definition titles :: "(int \<times> string) list" where
  "titles =
     [(7, [CHR 0xC4, CHR 0x9F, CHR 0xC5, CHR 0xB8, CHR 0xE2, CHR 0x80, CHR 0x9D, CHR 0xC2, CHR 0xA5]
            @ '' Week Warrior''),
      (14, [CHR 0xC3, CHR 0xA2, CHR 0xC5, CHR 0xA1, CHR 0xC2, CHR 0xA1] @ '' Two-Week Thunder''),
      (30, [CHR 0xC4, CHR 0x9F, CHR 0xC5, CHR 0xB8, CHR 0xC5, CHR 0x92, CHR 0xC5, CHR 0xB8]
            @ '' Month Master''),
      (60, [CHR 0xC4, CHR 0x9F, CHR 0xC5, CHR 0xB8, CHR 0xE2, CHR 0x80, CHR 0x99, CHR 0xC2, CHR 0xAA]
            @ '' 60-Day Champion''),
      (90, [CHR 0xC4, CHR 0x9F, CHR 0xC5, CHR 0xB8, CHR 0xE2, CHR 0x80, CHR 0xA0]
            @ '' Quarter Conqueror''),
      (180, [CHR 0xC4, CHR 0x9F, CHR 0xC5, CHR 0xB8, CHR 0xE2, CHR 0x80, CHR 0x98, CHR 0xE2, CHR 0x80,
             CHR 0x98] @ '' Half-Year Hero''),
      (365, [CHR 0xC4, CHR 0x9F, CHR 0xC5, CHR 0xB8, CHR 0xE2, CHR 0x80, CHR 0x93, CHR 0xC3, CHR 0xAF,
             CHR 0xC2, CHR 0xB8] @ '' Year-Long Legend'')]"

text \<open>\<^verbatim>\<open>titles[days] || `${days}-Day Streak`\<close>: every title of the table is a non-empty
  string, hence truthy, so the fallback is taken exactly when the key is missing.\<close>

definition getAchievementTitle :: "int \<Rightarrow> string" where
  "getAchievementTitle days =
     (case map_of titles days of
        Some t \<Rightarrow> t
      | None \<Rightarrow> template_number days @ ''-Day Streak'')"

definition milestones :: "int list" where
  "milestones = [7, 14, 30, 60, 90, 180, 365]"

text \<open>The body of the \<^verbatim>\<open>forEach\<close> callback: push an entry when the milestone is reached.\<close>

definition push_achieved :: "int \<Rightarrow> achieved_entry list \<Rightarrow> int \<Rightarrow> achieved_entry list" where
  "push_achieved currentStreak acc m =
     (if currentStreak \<ge> m
      then acc @ [\<lparr>milestone = m, title = getAchievementTitle m, achieved = True\<rparr>]
      else acc)"

text \<open>\<^verbatim>\<open>if (nextMilestone)\<close> tests truthiness: \<^verbatim>\<open>undefined\<close> (nothing found) and the
  number 0 are falsy.\<close>

definition getStreakAchievements :: "int \<Rightarrow> int \<Rightarrow> achievements" where
  "getStreakAchievements currentStreak longestStreak =
     (let cur = foldl (push_achieved currentStreak) [] milestones;
          nextMilestone = find (\<lambda>m. m > currentStreak) milestones
      in \<lparr>current = cur,
          upcoming =
            (case nextMilestone of
               None \<Rightarrow> None
             | Some m \<Rightarrow>
                 if m \<noteq> 0
                 then Some \<lparr>milestone = m, title = getAchievementTitle m,
                            daysRemaining = m - currentStreak\<rparr>
                 else None)\<rparr>)"

subsection \<open>The two tables and the database client\<close>

text \<open>
  An error object of the client; only its \<^verbatim>\<open>code\<close> is ever inspected.
  \<^verbatim>\<open>PGRST116\<close> is what \<^verbatim>\<open>.single()\<close> answers when the query does not select
  exactly one row.
\<close>

datatype api_error = ApiError (code: string)

definition PGRST116 :: api_error where
  "PGRST116 = ApiError ''PGRST116''"

text \<open>The \<^verbatim>\<open>{ data, error }\<close> object every query resolves to.\<close>

record 'a response =
  data :: "'a option"
  error :: "api_error option"

record streak_row =
  current_streak :: int
  longest_streak :: int
  last_login_date :: "date option"
  total_login_days :: int

text \<open>
  Modelled from the spec: the database schema is not part of the sources. Table
  \<^verbatim>\<open>login_history\<close> holds rows \<open>(student_id, login_date)\<close>, unique on that pair (the
  conflict target of the upsert in \<^verbatim>\<open>recordLogin\<close>); table \<^verbatim>\<open>streak_tracking\<close> holds
  one row per student, keyed by \<^verbatim>\<open>student_id\<close>, so that an upsert overwrites the row
  of the student. A column left out of an insert is \<^verbatim>\<open>null\<close>.
\<close>

record store =
  login_history :: "(student_id \<times> date) list"
  streak_tracking :: "student_id \<rightharpoonup> streak_row"

definition empty_store :: store where
  "empty_store = \<lparr>login_history = [], streak_tracking = Map.empty\<rparr>"

text \<open>
  A request to the database can fail (network, service down). Which requests fail, and
  with which error, is a parameter of every operation: a function from the kind of
  request to the error it meets, \<open>None\<close> when the request goes through.
\<close>

datatype store_op =
  LoginUpsert | LoginSelect | LoginSingle date | StreakUpsert | StreakSingle | StreakInsert

type_synonym faults = "store_op \<Rightarrow> api_error option"

definition no_faults :: faults where
  "no_faults = (\<lambda>_. None)"

text \<open>\<^verbatim>\<open>from('login_history').upsert(row, {onConflict: 'student_id,login_date',
  ignoreDuplicates: true})\<close>\<close>

definition login_upsert :: "faults \<Rightarrow> student_id \<Rightarrow> date \<Rightarrow> store \<Rightarrow> api_error option \<times> store" where
  "login_upsert f sid d st =
     (case f LoginUpsert of
        Some e \<Rightarrow> (Some e, st)
      | None \<Rightarrow>
          (None, if (sid, d) \<in> set (login_history st) then st
                 else st\<lparr>login_history := login_history st @ [(sid, d)]\<rparr>))"

text \<open>\<^verbatim>\<open>from('login_history').select('login_date').eq('student_id', sid)
  .order('login_date', {ascending: false})\<close>\<close>

definition selected_dates :: "student_id \<Rightarrow> store \<Rightarrow> date list" where
  "selected_dates sid st =
     sort_key uminus (map snd (filter (\<lambda>r. fst r = sid) (login_history st)))"

definition login_select :: "faults \<Rightarrow> student_id \<Rightarrow> store \<Rightarrow> date list response \<times> store" where
  "login_select f sid st =
     (case f LoginSelect of
        Some e \<Rightarrow> (\<lparr>data = None, error = Some e\<rparr>, st)
      | None \<Rightarrow> (\<lparr>data = Some (selected_dates sid st), error = None\<rparr>, st))"

text \<open>\<^verbatim>\<open>from('login_history').select('login_date').eq('student_id', sid)
  .eq('login_date', d).single()\<close>\<close>

definition login_single :: "faults \<Rightarrow> student_id \<Rightarrow> date \<Rightarrow> store \<Rightarrow> date response \<times> store" where
  "login_single f sid d st =
     (case f (LoginSingle d) of
        Some e \<Rightarrow> (\<lparr>data = None, error = Some e\<rparr>, st)
      | None \<Rightarrow>
          (case filter (\<lambda>r. fst r = sid \<and> snd r = d) (login_history st) of
             [r] \<Rightarrow> (\<lparr>data = Some (snd r), error = None\<rparr>, st)
           | _ \<Rightarrow> (\<lparr>data = None, error = Some PGRST116\<rparr>, st)))"

text \<open>\<^verbatim>\<open>from('streak_tracking').upsert(row)\<close>\<close>

definition streak_upsert :: "faults \<Rightarrow> student_id \<Rightarrow> streak_row \<Rightarrow> store \<Rightarrow> api_error option \<times> store" where
  "streak_upsert f sid row st =
     (case f StreakUpsert of
        Some e \<Rightarrow> (Some e, st)
      | None \<Rightarrow> (None, st\<lparr>streak_tracking := (streak_tracking st)(sid \<mapsto> row)\<rparr>))"

text \<open>\<^verbatim>\<open>from('streak_tracking').select('*').eq('student_id', sid).single()\<close>\<close>

definition streak_single :: "faults \<Rightarrow> student_id \<Rightarrow> store \<Rightarrow> streak_row response \<times> store" where
  "streak_single f sid st =
     (case f StreakSingle of
        Some e \<Rightarrow> (\<lparr>data = None, error = Some e\<rparr>, st)
      | None \<Rightarrow>
          (case streak_tracking st sid of
             Some row \<Rightarrow> (\<lparr>data = Some row, error = None\<rparr>, st)
           | None \<Rightarrow> (\<lparr>data = None, error = Some PGRST116\<rparr>, st)))"

text \<open>\<^verbatim>\<open>from('streak_tracking').insert(row)\<close>: a second row for the same student
  violates the key (SQL state 23505).\<close>

definition streak_insert :: "faults \<Rightarrow> student_id \<Rightarrow> streak_row \<Rightarrow> store \<Rightarrow> api_error option \<times> store" where
  "streak_insert f sid row st =
     (case f StreakInsert of
        Some e \<Rightarrow> (Some e, st)
      | None \<Rightarrow>
          (case streak_tracking st sid of
             Some _ \<Rightarrow> (Some (ApiError ''23505''), st)
           | None \<Rightarrow> (None, st\<lparr>streak_tracking := (streak_tracking st)(sid \<mapsto> row)\<rparr>)))"

subsection \<open>The date library\<close>

text \<open>
  An instant is a number of minutes since 1970-01-01T00:00Z (a \<^verbatim>\<open>Date\<close> holds
  milliseconds; every instant met here is a whole minute). A time zone gives the offset
  of the wall clock from UTC, in minutes, in force at an instant, and the instant a
  \<^verbatim>\<open>Date\<close> holds once its local fields are set to a wall-clock time (where a wall-clock
  time occurs twice or not at all, the offset before the transition is used).
\<close>

record zone =
  offset :: "int \<Rightarrow> int"
  utc_of_local :: "int \<Rightarrow> int"

text \<open>\<^verbatim>\<open>new Date('yyyy-MM-dd')\<close>: a date-only string is read as UTC.\<close>

definition new_Date :: "date \<Rightarrow> int" where
  "new_Date d = 1440 * d"

text \<open>The local fields of a \<^verbatim>\<open>Date\<close> (\<^verbatim>\<open>getFullYear\<close> down to \<^verbatim>\<open>getMilliseconds\<close>), as one
  wall-clock number of minutes; \<open>div 1440\<close> is the local calendar day.\<close>

definition local_wall :: "zone \<Rightarrow> int \<Rightarrow> int" where
  "local_wall z t = t + offset z t"

text \<open>\<^verbatim>\<open>compareLocalAsc\<close> compares the local fields of two dates, most significant first,
  and returns \<open>-1\<close>, \<open>0\<close> or \<open>1\<close>.\<close>

definition compareLocalAsc :: "zone \<Rightarrow> int \<Rightarrow> int \<Rightarrow> int" where
  "compareLocalAsc z dateLeft dateRight = sgn (local_wall z dateLeft - local_wall z dateRight)"

text \<open>\<^verbatim>\<open>differenceInCalendarDays\<close>: the difference of the local calendar days (the library
  subtracts the two local starts of day and rounds to whole days).\<close>

definition differenceInCalendarDays :: "zone \<Rightarrow> int \<Rightarrow> int \<Rightarrow> int" where
  "differenceInCalendarDays z dateLeft dateRight =
     local_wall z dateLeft div 1440 - local_wall z dateRight div 1440"

text \<open>\<^verbatim>\<open>d.setDate(d.getDate() - n)\<close>: the same wall-clock time \<open>n\<close> local days earlier.\<close>

definition setDate_back :: "zone \<Rightarrow> int \<Rightarrow> int \<Rightarrow> int" where
  "setDate_back z d n = utc_of_local z (local_wall z d - 1440 * n)"

text \<open>
  \<^verbatim>\<open>differenceInDays(dateLeft, dateRight)\<close>, the number of full local days between two
  dates:
  \<^verbatim>\<open>
  const sign = compareLocalAsc(dateLeft, dateRight)
  const difference = Math.abs(differenceInCalendarDays(dateLeft, dateRight))
  dateLeft.setDate(dateLeft.getDate() - sign * difference)
  const isLastDayNotFull = Number(compareLocalAsc(dateLeft, dateRight) === -sign)
  const result = sign * (difference - isLastDayNotFull)
  return result === 0 ? 0 : result
  \<close>
\<close>

definition differenceInDays :: "zone \<Rightarrow> int \<Rightarrow> int \<Rightarrow> int" where
  "differenceInDays z dateLeft dateRight =
     (let sign = compareLocalAsc z dateLeft dateRight;
          difference = \<bar>differenceInCalendarDays z dateLeft dateRight\<bar>;
          dateLeft' = setDate_back z dateLeft (sign * difference);
          isLastDayNotFull = (if compareLocalAsc z dateLeft' dateRight = - sign then 1 else 0)
      in sign * (difference - isLastDayNotFull))"

text \<open>A time zone whose offset never changes (UTC is \<open>fixed_zone 0\<close>).\<close>

definition fixed_zone :: "int \<Rightarrow> zone" where
  "fixed_zone c = \<lparr>offset = (\<lambda>t. c), utc_of_local = (\<lambda>w. w - c)\<rparr>"

text \<open>
  New York between March 2024 and March 2025: four hours behind UTC until the clocks go
  back on 2024-11-03 at 06:00 UTC (02:00 local daylight time), five hours behind from
  then on. 2024-11-03 is day 20030.
\<close>

definition new_york_fall_back :: int where
  "new_york_fall_back = 1440 * 20030 + 360"

definition new_york :: zone where
  "new_york =
     \<lparr>offset = (\<lambda>t. if t < new_york_fall_back then - 240 else - 300),
      utc_of_local = (\<lambda>w. if w + 240 < new_york_fall_back then w + 240 else w + 300)\<rparr>"

subsection \<open>The streak computation of \<^verbatim>\<open>updateStreak\<close>\<close>

text \<open>
  \<^verbatim>\<open>for (let i = 1; i < sortedDates.length; i++) { ... currentStreak++ ... break }\<close>:
  the arguments are the time zone, the array, the index and the counter.
\<close>

function current_loop :: "zone \<Rightarrow> date list \<Rightarrow> nat \<Rightarrow> int \<Rightarrow> int" where
  "current_loop z sortedDates i currentStreak =
     (if i < length sortedDates
      then (let daysDiff = differenceInDays z (new_Date (sortedDates ! (i - 1)))
                             (new_Date (sortedDates ! i))
            in if daysDiff = 1
               then current_loop z sortedDates (i + 1) (currentStreak + 1)
               else currentStreak)
      else currentStreak)"
  by pat_completeness auto
termination
  by (relation "measure (\<lambda>(z, ds, i, c). length ds - i)") auto

declare current_loop.simps [simp del]

text \<open>The second loop: the arguments are the time zone, the array, the index,
  \<^verbatim>\<open>tempStreak\<close> and \<^verbatim>\<open>longestStreak\<close>.\<close>

function longest_loop :: "zone \<Rightarrow> date list \<Rightarrow> nat \<Rightarrow> int \<Rightarrow> int \<Rightarrow> int" where
  "longest_loop z sortedDates i tempStreak longestStreak =
     (if i < length sortedDates
      then (let daysDiff = differenceInDays z (new_Date (sortedDates ! (i - 1)))
                             (new_Date (sortedDates ! i))
            in if daysDiff = 1
               then longest_loop z sortedDates (i + 1) (tempStreak + 1)
                      (max longestStreak (tempStreak + 1))
               else longest_loop z sortedDates (i + 1) 1 longestStreak)
      else longestStreak)"
  by pat_completeness auto
termination
  by (relation "measure (\<lambda>(z, ds, i, t, l). length ds - i)") auto

declare longest_loop.simps [simp del]

text \<open>\<^verbatim>\<open>logins.map(l => l.login_date).sort((a, b) => new Date(b) - new Date(a))\<close>:
  a stable sort by instant, newest day first.\<close>

definition sortedDates_of :: "date list \<Rightarrow> date list" where
  "sortedDates_of logins = sort_key uminus logins"

text \<open>Lines 55 to 96 and the row built for the upsert, for a non-empty \<open>logins\<close>.\<close>

definition streak_summary :: "zone \<Rightarrow> date \<Rightarrow> date list \<Rightarrow> streak_row" where
  "streak_summary z today logins =
     (let sortedDates = sortedDates_of logins;
          mostRecentLogin = sortedDates ! 0;
          daysSinceLastLogin = differenceInDays z (new_Date today) (new_Date mostRecentLogin);
          currentStreak = (if daysSinceLastLogin \<le> 1 then current_loop z sortedDates 1 1 else 0);
          longestStreak = max (longest_loop z sortedDates 1 1 1) currentStreak
      in \<lparr>current_streak = currentStreak,
          longest_streak = longestStreak,
          last_login_date = Some today,
          total_login_days = int (length logins)\<rparr>)"

subsection \<open>The operations\<close>

text \<open>
  Every operation is wrapped in \<^verbatim>\<open>try { ... } catch (error) { return { error } }\<close>; a
  \<^verbatim>\<open>throw\<close> is the branch that returns the error. The result is paired with the store
  the operation leaves behind. The time zone \<open>z\<close> is that of the runtime the request
  runs in.
\<close>

definition updateStreak ::
  "zone \<Rightarrow> faults \<Rightarrow> date \<Rightarrow> student_id \<Rightarrow> store \<Rightarrow> api_error option \<times> store" where
  "updateStreak z f today sid st =
     (case login_select f sid st of (r, st1) \<Rightarrow>
        (case error r of
           Some loginsError \<Rightarrow> (Some loginsError, st1)
         | None \<Rightarrow>
             (case data r of
                None \<Rightarrow> (None, st1)
              | Some logins \<Rightarrow>
                  if length logins = 0 then (None, st1)
                  else (case streak_upsert f sid (streak_summary z today logins) st1 of
                          (Some streakError, st2) \<Rightarrow> (Some streakError, st2)
                        | (None, st2) \<Rightarrow> (None, st2)))))"

text \<open>The value \<^verbatim>\<open>updateStreak\<close> resolves to is awaited and dropped.\<close>

definition recordLogin ::
  "zone \<Rightarrow> faults \<Rightarrow> date \<Rightarrow> student_id \<Rightarrow> store \<Rightarrow> api_error option \<times> store" where
  "recordLogin z f today sid st =
     (case login_upsert f sid today st of
        (Some loginError, st1) \<Rightarrow> (Some loginError, st1)
      | (None, st1) \<Rightarrow>
          (case updateStreak z f today sid st1 of (_, st2) \<Rightarrow> (None, st2)))"

definition zero_row :: streak_row where
  "zero_row = \<lparr>current_streak = 0, longest_streak = 0, last_login_date = None,
               total_login_days = 0\<rparr>"

text \<open>The result is the pair \<^verbatim>\<open>(streakData, error)\<close>.\<close>

definition getStreakData ::
  "faults \<Rightarrow> student_id \<Rightarrow> store \<Rightarrow> (streak_row option \<times> api_error option) \<times> store" where
  "getStreakData f sid st =
     (case streak_single f sid st of (r, st1) \<Rightarrow>
        if (case error r of Some e \<Rightarrow> code e \<noteq> ''PGRST116'' | None \<Rightarrow> False)
        then ((None, error r), st1)
        else (case data r of
                None \<Rightarrow>
                  (case streak_insert f sid zero_row st1 of
                     (Some initError, st2) \<Rightarrow> ((None, Some initError), st2)
                   | (None, st2) \<Rightarrow> ((Some zero_row, None), st2))
              | Some d \<Rightarrow> ((Some d, None), st1)))"

text \<open>The result is the pair \<^verbatim>\<open>(needsMaintenance, error)\<close>. The \<^verbatim>\<open>error\<close> of the two
  queries is not read, so nothing is thrown inside the \<^verbatim>\<open>try\<close>.\<close>

definition needsStreakMaintenance ::
  "faults \<Rightarrow> date \<Rightarrow> student_id \<Rightarrow> store \<Rightarrow> (bool \<times> api_error option) \<times> store" where
  "needsStreakMaintenance f today sid st =
     (let yesterday = today - 1
      in case login_single f sid today st of (todayR, st1) \<Rightarrow>
           (case login_single f sid yesterday st1 of (yesterdayR, st2) \<Rightarrow>
              (let todayLogin = data todayR;
                   yesterdayLogin = data yesterdayR;
                   needsMaintenance = (yesterdayLogin \<noteq> None \<and> \<not> (todayLogin \<noteq> None))
               in ((needsMaintenance, None), st2))))"

subsection \<open>Reachable stores\<close>

text \<open>
  The stores the application can produce: it starts with empty tables; student signup
  (src/api/auth.js, step 4) inserts a zero row into \<^verbatim>\<open>streak_tracking\<close>; the operations
  above do the rest. Rows of \<^verbatim>\<open>login_history\<close> are never updated or deleted.
\<close>

inductive reachable :: "store \<Rightarrow> bool" where
  start: "reachable empty_store"
| signUp: "reachable st \<Longrightarrow> reachable (snd (streak_insert f sid zero_row st))"
| login: "reachable st \<Longrightarrow> reachable (snd (recordLogin z f today sid st))"
| update: "reachable st \<Longrightarrow> reachable (snd (updateStreak z f today sid st))"
| read: "reachable st \<Longrightarrow> reachable (snd (getStreakData f sid st))"

subsection \<open>The specification's reading of the streak computation\<close>

text \<open>The set of days on which a student has logged in, and the same days newest first.\<close>

definition login_dates :: "store \<Rightarrow> student_id \<Rightarrow> date set" where
  "login_dates st sid = set (map snd (filter (\<lambda>r. fst r = sid) (login_history st)))"

definition descending :: "date set \<Rightarrow> date list" where
  "descending S = rev (sorted_list_of_set S)"

text \<open>
  The specification measures the distance of two days in whole calendar days; the program
  measures it with the date library. Both are a function \<open>dd\<close> from two days to a number
  of days, and the specification's algorithm is written over any such function.
\<close>

definition calendar_days :: "date \<Rightarrow> date \<Rightarrow> int" where
  "calendar_days a b = a - b"

definition library_days :: "zone \<Rightarrow> date \<Rightarrow> date \<Rightarrow> int" where
  "library_days z a b = differenceInDays z (new_Date a) (new_Date b)"

text \<open>The number of adjacent pairs at the head of the list that are exactly one day
  apart, up to the first pair that is not.\<close>

definition consecutive_pairs_at_head :: "(date \<Rightarrow> date \<Rightarrow> int) \<Rightarrow> date list \<Rightarrow> nat" where
  "consecutive_pairs_at_head dd ds =
     length (takeWhile (\<lambda>(a, b). dd a b = 1) (zip ds (tl ds)))"

definition spec_currentStreak :: "(date \<Rightarrow> date \<Rightarrow> int) \<Rightarrow> date \<Rightarrow> date list \<Rightarrow> int" where
  "spec_currentStreak dd today ds =
     (if dd today (hd ds) \<le> 1 then 1 + int (consecutive_pairs_at_head dd ds) else 0)"

text \<open>One scan over the list: the running run length is incremented when the adjacent
  difference is exactly 1 and reset to 1 otherwise; \<open>best\<close> is the maximum seen.\<close>

fun spec_scan :: "(date \<Rightarrow> date \<Rightarrow> int) \<Rightarrow> date list \<Rightarrow> int \<Rightarrow> int \<Rightarrow> int" where
  "spec_scan dd (a # b # ds) run best =
     (if dd a b = 1 then spec_scan dd (b # ds) (run + 1) (max best (run + 1))
      else spec_scan dd (b # ds) 1 best)"
| "spec_scan dd ds run best = best"

definition spec_longestStreak :: "(date \<Rightarrow> date \<Rightarrow> int) \<Rightarrow> date \<Rightarrow> date list \<Rightarrow> int" where
  "spec_longestStreak dd today ds = max (spec_scan dd ds 1 1) (spec_currentStreak dd today ds)"

subsection \<open>The invariant of a summary row\<close>

definition summary_invariant :: "streak_row \<Rightarrow> bool" where
  "summary_invariant row \<longleftrightarrow>
     0 \<le> current_streak row \<and> current_streak row \<le> longest_streak row
     \<and> longest_streak row \<le> total_login_days row"

section \<open>Properties\<close>

subsection \<open>Achievements\<close>

lemma current_milestones:
  "map milestone (current (getStreakAchievements cs ls)) = filter (\<lambda>m. m \<le> cs) milestones"
  by (simp add: getStreakAchievements_def milestones_def push_achieved_def Let_def)

lemma foldl_push_achieved:
  "list_all achieved acc \<Longrightarrow> list_all achieved (foldl (push_achieved cs) acc ms)"
  by (induction ms arbitrary: acc) (simp_all add: push_achieved_def)

lemma current_all_achieved: "list_all achieved (current (getStreakAchievements cs ls))"
  by (simp add: getStreakAchievements_def Let_def foldl_push_achieved)

lemma upcoming_least:
  "map_option milestone (upcoming (getStreakAchievements cs ls)) =
     (if 365 \<le> cs then None else Some (Min (set (filter (\<lambda>m. cs < m) milestones))))"
  by (simp add: getStreakAchievements_def milestones_def Let_def)

lemma upcoming_daysRemaining:
  "map_option daysRemaining (upcoming (getStreakAchievements cs ls)) =
   map_option (\<lambda>m. m - cs) (map_option milestone (upcoming (getStreakAchievements cs ls)))"
  by (simp add: getStreakAchievements_def milestones_def Let_def)

lemma achievements_at_10:
  "map milestone (current (getStreakAchievements 10 ls)) = [7] \<and>
   map_option (\<lambda>u. (milestone u, daysRemaining u)) (upcoming (getStreakAchievements 10 ls))
     = Some (14, 4)"
  by (simp add: getStreakAchievements_def milestones_def push_achieved_def Let_def)

lemma achievements_at_365:
  "map milestone (current (getStreakAchievements 365 ls)) = milestones \<and>
   upcoming (getStreakAchievements 365 ls) = None"
  by (simp add: getStreakAchievements_def milestones_def push_achieved_def Let_def)

text \<open>
  Claim C7. For every current streak, the achieved entries are exactly the milestones of
  the table that are at most the current streak, in the table's order and each marked
  achieved; the upcoming entry is the least milestone strictly greater than the current
  streak, with \<open>daysRemaining = milestone - currentStreak\<close>, and there is none exactly
  when the current streak is at least 365. A current streak of 10 gives achieved \<open>[7]\<close> and
  upcoming milestone 14 with 4 days remaining; a current streak of 365 gives all seven
  milestones and no upcoming entry.
\<close>

theorem getStreakAchievements_milestones:
  "map milestone (current (getStreakAchievements cs ls)) = filter (\<lambda>m. m \<le> cs) milestones
   \<and> list_all achieved (current (getStreakAchievements cs ls))
   \<and> map_option milestone (upcoming (getStreakAchievements cs ls))
       = (if 365 \<le> cs then None else Some (Min (set (filter (\<lambda>m. cs < m) milestones))))
   \<and> map_option daysRemaining (upcoming (getStreakAchievements cs ls))
       = map_option (\<lambda>m. m - cs) (map_option milestone (upcoming (getStreakAchievements cs ls)))
   \<and> map milestone (current (getStreakAchievements 10 ls)) = [7]
   \<and> map_option (\<lambda>u. (milestone u, daysRemaining u)) (upcoming (getStreakAchievements 10 ls))
       = Some (14, 4)
   \<and> map milestone (current (getStreakAchievements 365 ls)) = [7, 14, 30, 60, 90, 180, 365]
   \<and> upcoming (getStreakAchievements 365 ls) = None"
  using current_milestones [of cs ls] current_all_achieved [of cs ls] upcoming_least [of cs ls]
    upcoming_daysRemaining [of cs ls] achievements_at_10 [of ls] achievements_at_365 [of ls]
  by (simp add: milestones_def)

text \<open>
  Claim C10. The result of \<^verbatim>\<open>getStreakAchievements\<close> depends on the current streak only:
  two calls with the same current streak and any two longest streaks return the same
  achieved list and the same upcoming entry.
\<close>

theorem getStreakAchievements_ignores_longestStreak:
  "getStreakAchievements cs ls1 = getStreakAchievements cs ls2"
  by (simp add: getStreakAchievements_def)

subsection \<open>The two loops compute what the specification describes\<close>

lemma drop_adjacent:
  assumes "1 \<le> i" "i < length ds"
  shows "drop (i - 1) (zip ds (tl ds)) = (ds ! (i - 1), ds ! i) # drop i (zip ds (tl ds))"
proof -
  from assms have len: "i - 1 < length (zip ds (tl ds))" by simp
  have "drop (i - 1) (zip ds (tl ds))
          = zip ds (tl ds) ! (i - 1) # drop (Suc (i - 1)) (zip ds (tl ds))"
    using len by (rule Cons_nth_drop_Suc [symmetric])
  moreover have "zip ds (tl ds) ! (i - 1) = (ds ! (i - 1), ds ! i)"
    using assms by (simp add: nth_tl)
  ultimately show ?thesis using assms by simp
qed

lemma current_loop_takeWhile:
  "1 \<le> i \<Longrightarrow>
   current_loop z ds i c
     = c + int (length (takeWhile (\<lambda>(a, b). library_days z a b = 1) (drop (i - 1) (zip ds (tl ds)))))"
proof (induction z ds i c rule: current_loop.induct)
  case (1 z ds i c)
  show ?case
  proof (cases "i < length ds")
    case False
    then show ?thesis by (simp add: current_loop.simps [of z ds i c] library_days_def)
  next
    case True
    note adj = drop_adjacent [OF "1.prems" True]
    show ?thesis
    proof (cases "library_days z (ds ! (i - 1)) (ds ! i) = 1")
      case False
      with True adj show ?thesis by (simp add: current_loop.simps [of z ds i c] library_days_def)
    next
      case step: True
      have "current_loop z ds i c = current_loop z ds (i + 1) (c + 1)"
        using True step by (simp add: current_loop.simps [of z ds i c] library_days_def)
      also have "\<dots> = (c + 1) + int (length (takeWhile (\<lambda>(a, b). library_days z a b = 1)
                                      (drop i (zip ds (tl ds)))))"
        using "1.IH" [OF True refl step [unfolded library_days_def]] by simp
      finally show ?thesis using adj step by simp
    qed
  qed
qed

lemma current_loop_spec: "current_loop z ds 1 1 = 1 + int (consecutive_pairs_at_head (library_days z) ds)"
  using current_loop_takeWhile [of 1 z ds 1] by (simp add: consecutive_pairs_at_head_def)

lemma drop_two:
  assumes "1 \<le> i" "i < length ds"
  shows "drop (i - 1) ds = ds ! (i - 1) # ds ! i # drop (i + 1) ds"
proof -
  from assms have "drop (i - 1) ds = ds ! (i - 1) # drop (Suc (i - 1)) ds"
    by (intro Cons_nth_drop_Suc [symmetric]) simp
  also from assms have "drop (Suc (i - 1)) ds = drop i ds" by simp
  also from assms have "drop i ds = ds ! i # drop (Suc i) ds"
    by (intro Cons_nth_drop_Suc [symmetric])
  finally show ?thesis by simp
qed

lemma spec_scan_short: "length ds \<le> 1 \<Longrightarrow> spec_scan dd ds run best = best"
  by (cases ds) auto

lemma longest_loop_scan:
  "1 \<le> i \<Longrightarrow> longest_loop z ds i t l = spec_scan (library_days z) (drop (i - 1) ds) t l"
proof (induction z ds i t l rule: longest_loop.induct)
  case (1 z ds i t l)
  show ?case
  proof (cases "i < length ds")
    case False
    then have "length (drop (i - 1) ds) \<le> 1" by simp
    then have "spec_scan (library_days z) (drop (i - 1) ds) t l = l" by (rule spec_scan_short)
    with False show ?thesis by (simp add: longest_loop.simps [of z ds i t l])
  next
    case True
    note two = drop_two [OF "1.prems" True]
    have nxt: "ds ! i # drop (i + 1) ds = drop i ds"
      using True Cons_nth_drop_Suc [of i ds] by simp
    have unfolded: "spec_scan (library_days z) (drop (i - 1) ds) t l
                      = spec_scan (library_days z) (ds ! (i - 1) # ds ! i # drop (i + 1) ds) t l"
      by (simp only: two)
    show ?thesis
    proof (cases "library_days z (ds ! (i - 1)) (ds ! i) = 1")
      case step: True
      have "longest_loop z ds i t l = longest_loop z ds (i + 1) (t + 1) (max l (t + 1))"
        using True step by (simp add: longest_loop.simps [of z ds i t l] library_days_def)
      also have "\<dots> = spec_scan (library_days z) (drop i ds) (t + 1) (max l (t + 1))"
        using "1.IH"(1) [OF True refl step [unfolded library_days_def]] by simp
      finally have lhs: "longest_loop z ds i t l = spec_scan (library_days z) (drop i ds) (t + 1) (max l (t + 1))" .
      have "spec_scan (library_days z) (ds ! (i - 1) # ds ! i # drop (i + 1) ds) t l
              = spec_scan (library_days z) (ds ! i # drop (i + 1) ds) (t + 1) (max l (t + 1))"
        using step by simp
      also have "\<dots> = spec_scan (library_days z) (drop i ds) (t + 1) (max l (t + 1))"
        by (simp only: nxt)
      finally show ?thesis using lhs unfolded by simp
    next
      case False
      have "longest_loop z ds i t l = longest_loop z ds (i + 1) 1 l"
        using True False by (simp add: longest_loop.simps [of z ds i t l] library_days_def)
      also have "\<dots> = spec_scan (library_days z) (drop i ds) 1 l"
        using "1.IH"(2) [OF True refl False [unfolded library_days_def]] by simp
      finally have lhs: "longest_loop z ds i t l = spec_scan (library_days z) (drop i ds) 1 l" .
      have "spec_scan (library_days z) (ds ! (i - 1) # ds ! i # drop (i + 1) ds) t l
              = spec_scan (library_days z) (ds ! i # drop (i + 1) ds) 1 l"
        using False by simp
      also have "\<dots> = spec_scan (library_days z) (drop i ds) 1 l"
        by (simp only: nxt)
      finally show ?thesis using lhs unfolded by simp
    qed
  qed
qed

lemma longest_loop_spec: "longest_loop z ds 1 1 1 = spec_scan (library_days z) ds 1 1"
  using longest_loop_scan [of 1 z ds 1 1] by simp

subsection \<open>What \<^verbatim>\<open>updateStreak\<close> reads and writes\<close>

lemma updateStreak_eq:
  "updateStreak z f today sid st =
     (case f LoginSelect of
        Some e \<Rightarrow> (Some e, st)
      | None \<Rightarrow>
          if selected_dates sid st = [] then (None, st)
          else (case f StreakUpsert of
                  Some e \<Rightarrow> (Some e, st)
                | None \<Rightarrow>
                    (None, st\<lparr>streak_tracking :=
                       (streak_tracking st)(sid \<mapsto> streak_summary z today (selected_dates sid st))\<rparr>)))"
  by (simp add: updateStreak_def login_select_def streak_upsert_def split: option.splits)

lemma set_selected_dates: "set (selected_dates sid st) = login_dates st sid"
  by (simp add: selected_dates_def login_dates_def)

lemma distinct_selected_dates:
  assumes "distinct (login_history st)"
  shows "distinct (selected_dates sid st)"
proof -
  have "inj_on snd (set (filter (\<lambda>r. fst r = sid) (login_history st)))"
    by (auto simp: inj_on_def)
  with assms have "distinct (map snd (filter (\<lambda>r. fst r = sid) (login_history st)))"
    by (simp add: distinct_map)
  then show ?thesis by (simp add: selected_dates_def)
qed

lemma sorted_uminus_descending: "sorted (map uminus (descending (S::int set)))"
proof -
  have "sorted (sorted_list_of_set S)" by simp
  then have "sorted_wrt (\<lambda>x y. - y \<le> - x) (sorted_list_of_set S)" by simp
  then have "sorted_wrt (\<lambda>x y. - x \<le> - y) (rev (sorted_list_of_set S))"
    by (simp only: sorted_wrt_rev)
  then show ?thesis by (simp only: descending_def sorted_map)
qed

text \<open>Sorting distinct days newest first gives the descending enumeration of their set.\<close>

lemma sortedDates_descending:
  assumes "distinct xs"
  shows "sortedDates_of xs = descending (set xs)"
proof -
  have "map uminus (sortedDates_of xs) = map uminus (descending (set xs))"
  proof (rule sorted_distinct_set_unique)
    show "sorted (map uminus (sortedDates_of xs))"
      by (simp add: sortedDates_of_def)
    show "distinct (map uminus (sortedDates_of xs))"
      using assms by (simp add: sortedDates_of_def distinct_map)
    show "sorted (map uminus (descending (set xs)))"
      by (rule sorted_uminus_descending)
    show "distinct (map uminus (descending (set xs)))"
      by (simp add: descending_def distinct_map)
    show "set (map uminus (sortedDates_of xs)) = set (map uminus (descending (set xs)))"
      by (simp add: sortedDates_of_def descending_def)
  qed
  then show ?thesis by simp
qed

lemma sortedDates_selected:
  assumes "distinct (login_history st)"
  shows "sortedDates_of (selected_dates sid st) = descending (login_dates st sid)"
  using sortedDates_descending [OF distinct_selected_dates [OF assms, of sid]]
  by (simp add: set_selected_dates)

lemma selected_dates_nonempty: "selected_dates sid st \<noteq> [] \<longleftrightarrow> login_dates st sid \<noteq> {}"
  using set_selected_dates [of sid st] by (metis set_empty)

lemma sortedDates_nonempty: "logins \<noteq> [] \<Longrightarrow> sortedDates_of logins \<noteq> []"
  by (metis sortedDates_of_def length_sort length_0_conv)

lemma current_loop_spec_Suc: "current_loop z ds (Suc 0) 1 = 1 + int (consecutive_pairs_at_head (library_days z) ds)"
  using current_loop_spec [of z ds] by simp

lemma longest_loop_spec_Suc: "longest_loop z ds (Suc 0) 1 1 = spec_scan (library_days z) ds 1 1"
  using longest_loop_spec [of z ds] by simp

lemma current_streak_summary:
  assumes "logins \<noteq> []"
  shows "current_streak (streak_summary z today logins)
           = spec_currentStreak (library_days z) today (sortedDates_of logins)"
proof -
  from assms have "sortedDates_of logins \<noteq> []" by (rule sortedDates_nonempty)
  then have "sortedDates_of logins ! 0 = hd (sortedDates_of logins)"
    by (simp add: hd_conv_nth)
  then show ?thesis
    by (simp add: streak_summary_def Let_def spec_currentStreak_def current_loop_spec_Suc
        library_days_def)
qed

lemma longest_streak_summary:
  assumes "logins \<noteq> []"
  shows "longest_streak (streak_summary z today logins)
           = spec_longestStreak (library_days z) today (sortedDates_of logins)"
proof -
  from assms have "sortedDates_of logins \<noteq> []" by (rule sortedDates_nonempty)
  then have "sortedDates_of logins ! 0 = hd (sortedDates_of logins)"
    by (simp add: hd_conv_nth)
  then show ?thesis
    by (simp add: streak_summary_def Let_def spec_longestStreak_def spec_currentStreak_def
        current_loop_spec_Suc longest_loop_spec_Suc library_days_def)
qed

lemma updateStreak_writes:
  assumes "login_dates st sid \<noteq> {}" "f LoginSelect = None" "f StreakUpsert = None"
  shows "updateStreak z f today sid st =
           (None, st\<lparr>streak_tracking :=
              (streak_tracking st)(sid \<mapsto> streak_summary z today (selected_dates sid st))\<rparr>)"
  using assms selected_dates_nonempty [of sid st] by (simp add: updateStreak_eq)

lemma descending_grace: "descending {t - 3, t - 2, t - (1::int)} = [t - 1, t - 2, t - 3]"
  by (simp add: descending_def)

lemma descending_lapse: "descending {t - 5, t - 4, t - (3::int)} = [t - 3, t - 4, t - 5]"
  by (simp add: descending_def)

subsection \<open>The date library in a time zone without clock changes\<close>

lemma differenceInDays_fixed_zone:
  "differenceInDays (fixed_zone c) (new_Date a) (new_Date b) = a - b"
proof -
  let ?z = "fixed_zone c"
  have wall: "local_wall ?z t = t + c" for t
    by (simp add: local_wall_def fixed_zone_def)
  have utc: "utc_of_local ?z w = w - c" for w
    by (simp add: fixed_zone_def)
  have cmp: "compareLocalAsc ?z (new_Date a) (new_Date b) = sgn (a - b)"
    by (simp add: compareLocalAsc_def wall new_Date_def sgn_if)
  have "(1440 * a + c) div 1440 = a + c div 1440" "(1440 * b + c) div 1440 = b + c div 1440"
    by simp_all
  then have cal: "differenceInCalendarDays ?z (new_Date a) (new_Date b) = a - b"
    by (simp add: differenceInCalendarDays_def wall new_Date_def)
  have "setDate_back ?z (new_Date a) (a - b) = new_Date b"
    by (simp add: setDate_back_def wall utc new_Date_def)
  then have shifted: "setDate_back ?z (new_Date a) (sgn (a - b) * \<bar>a - b\<bar>) = new_Date b"
    by (simp only: mult_sgn_abs)
  have same: "compareLocalAsc ?z (new_Date b) (new_Date b) = 0"
    by (simp add: compareLocalAsc_def)
  have "differenceInDays ?z (new_Date a) (new_Date b)
          = sgn (a - b) * (\<bar>a - b\<bar> - (if 0 = - sgn (a - b) then 1 else 0))"
    unfolding differenceInDays_def Let_def cmp cal shifted same ..
  also have "\<dots> = a - b"
    by (cases "a = b") (simp_all add: sgn_if abs_if)
  finally show ?thesis .
qed

lemma library_days_fixed_zone: "library_days (fixed_zone c) = calendar_days"
  by (intro ext) (simp add: library_days_def calendar_days_def differenceInDays_fixed_zone)

subsection \<open>Current streak\<close>

text \<open>
  In a time zone whose offset never changes the program computes the specification's
  current streak: for a student with at least one login day (the rows of
  \<^verbatim>\<open>login_history\<close> being unique, and the read and the write going through), when
  \<open>today\<close> minus the most recent login day is at most 1, one plus the number of
  adjacent pairs exactly one day apart at the head of the login days sorted newest
  first; otherwise 0. Login days \<open>D - 3\<close>, \<open>D - 2\<close>, \<open>D - 1\<close> with \<open>today = D\<close> give 3.
\<close>

lemma updateStreak_currentStreak_fixed_zone:
  assumes "distinct (login_history st)" and "login_dates st sid \<noteq> {}"
    and "f LoginSelect = None" and "f StreakUpsert = None"
  shows "map_option current_streak
           (streak_tracking (snd (updateStreak (fixed_zone c) f today sid st)) sid)
           = Some (spec_currentStreak calendar_days today (descending (login_dates st sid)))
         \<and> (login_dates st sid = {today - 3, today - 2, today - 1} \<longrightarrow>
              map_option current_streak
                (streak_tracking (snd (updateStreak (fixed_zone c) f today sid st)) sid)
                = Some 3)"
proof -
  let ?z = "fixed_zone c"
  have ne: "selected_dates sid st \<noteq> []"
    using assms(2) by (simp add: selected_dates_nonempty)
  have "map_option current_streak (streak_tracking (snd (updateStreak ?z f today sid st)) sid)
          = Some (current_streak (streak_summary ?z today (selected_dates sid st)))"
    by (simp add: updateStreak_writes [OF assms(2-4)])
  also have "\<dots> = Some (spec_currentStreak calendar_days today (descending (login_dates st sid)))"
    by (simp add: current_streak_summary [OF ne] sortedDates_selected [OF assms(1)]
        library_days_fixed_zone)
  finally have gen:
    "map_option current_streak (streak_tracking (snd (updateStreak ?z f today sid st)) sid)
       = Some (spec_currentStreak calendar_days today (descending (login_dates st sid)))" .
  have "spec_currentStreak calendar_days today (descending {today - 3, today - 2, today - 1}) = 3"
    by (simp add: descending_grace spec_currentStreak_def consecutive_pairs_at_head_def
        calendar_days_def)
  with gen show ?thesis by auto
qed

text \<open>
  Claim C1 asks for that current streak for every set of login days and every \<open>today\<close>.
  The program measures each distance with \<^verbatim>\<open>differenceInDays\<close> on UTC midnights, compared
  in local time, and where the clocks go back between two days the result is one less.
  In New York, with login days 2024-11-02, 2024-11-03 and 2024-11-04 (days 20029 to 20031)
  and \<open>today\<close> 2024-11-05 (day 20032), the stored current streak is 1 where the claim says
  3; with the single login day 2024-11-02 and \<open>today\<close> 2024-11-04, two days later, the
  stored current streak is 1 where the claim says 0.
\<close>

theorem currentStreak_where_clocks_go_back:
  "login_dates \<lparr>login_history = [(1, 20029), (1, 20030), (1, 20031)], streak_tracking = Map.empty\<rparr> 1
     = {20032 - 3, 20032 - 2, 20032 - 1}
   \<and> map_option current_streak
        (streak_tracking
          (snd (updateStreak new_york no_faults 20032 1
                 \<lparr>login_history = [(1, 20029), (1, 20030), (1, 20031)],
                    streak_tracking = Map.empty\<rparr>)) 1) = Some 1
   \<and> spec_currentStreak calendar_days 20032 (descending {20032 - 3, 20032 - 2, 20032 - 1}) = 3
   \<and> map_option current_streak
        (streak_tracking
          (snd (updateStreak new_york no_faults 20031 1
                 \<lparr>login_history = [(1, 20029)], streak_tracking = Map.empty\<rparr>)) 1) = Some 1
   \<and> spec_currentStreak calendar_days 20031 (descending {20029}) = 0"
proof -
  have a: "login_dates \<lparr>login_history = [(1, 20029), (1, 20030), (1, 20031)],
                         streak_tracking = Map.empty\<rparr> 1 = {20032 - 3, 20032 - 2, 20032 - 1}"
    by (auto simp: login_dates_def)
  have b: "map_option current_streak
        (streak_tracking
          (snd (updateStreak new_york no_faults 20032 1
                 \<lparr>login_history = [(1, 20029), (1, 20030), (1, 20031)],
                    streak_tracking = Map.empty\<rparr>)) 1) = Some 1"
    by code_simp
  have c: "spec_currentStreak calendar_days 20032 (descending {20032 - 3, 20032 - 2, 20032 - 1}) = 3"
    by code_simp
  have d: "map_option current_streak
        (streak_tracking
          (snd (updateStreak new_york no_faults 20031 1
                 \<lparr>login_history = [(1, 20029)], streak_tracking = Map.empty\<rparr>)) 1) = Some 1"
    by code_simp
  have e: "spec_currentStreak calendar_days 20031 (descending {20029}) = 0"
    by code_simp
  from a b c d e show ?thesis by (simp only: simp_thms)
qed

subsection \<open>Longest streak\<close>

text \<open>
  In a time zone whose offset never changes, and under the same conditions, the longest
  streak the program stores is the maximum of the specification's single scan over the
  login days sorted newest first and of the current streak. Login days \<open>D - 5\<close>, \<open>D - 4\<close>,
  \<open>D - 3\<close> with \<open>today = D\<close> give a current streak of 0 and a longest streak of 3.
\<close>

lemma updateStreak_longestStreak_fixed_zone:
  assumes "distinct (login_history st)" and "login_dates st sid \<noteq> {}"
    and "f LoginSelect = None" and "f StreakUpsert = None"
  shows "map_option longest_streak
           (streak_tracking (snd (updateStreak (fixed_zone c) f today sid st)) sid)
           = Some (max (spec_scan calendar_days (descending (login_dates st sid)) 1 1)
                       (spec_currentStreak calendar_days today (descending (login_dates st sid))))
         \<and> (login_dates st sid = {today - 5, today - 4, today - 3} \<longrightarrow>
              map_option (\<lambda>row. (current_streak row, longest_streak row))
                (streak_tracking (snd (updateStreak (fixed_zone c) f today sid st)) sid)
                = Some (0, 3))"
proof -
  let ?z = "fixed_zone c"
  let ?ds = "descending (login_dates st sid)"
  let ?row = "streak_summary ?z today (selected_dates sid st)"
  have ne: "selected_dates sid st \<noteq> []"
    using assms(2) by (simp add: selected_dates_nonempty)
  have written: "streak_tracking (snd (updateStreak ?z f today sid st)) sid = Some ?row"
    by (simp add: updateStreak_writes [OF assms(2-4)])
  have cur: "current_streak ?row = spec_currentStreak calendar_days today ?ds"
    by (simp add: current_streak_summary [OF ne] sortedDates_selected [OF assms(1)]
        library_days_fixed_zone)
  have lng: "longest_streak ?row
               = max (spec_scan calendar_days ?ds 1 1) (spec_currentStreak calendar_days today ?ds)"
    by (simp add: longest_streak_summary [OF ne] sortedDates_selected [OF assms(1)]
        spec_longestStreak_def library_days_fixed_zone)
  have c0: "spec_currentStreak calendar_days today (descending {today - 5, today - 4, today - 3}) = 0"
    by (simp add: descending_lapse spec_currentStreak_def calendar_days_def)
  have l3: "spec_scan calendar_days (descending {today - 5, today - 4, today - 3}) 1 1 = 3"
    by (simp add: descending_lapse calendar_days_def)
  from written cur lng c0 l3 show ?thesis by auto
qed

text \<open>
  Claim C2 asks for that longest streak for every set of login days and every \<open>today\<close>.
  For the same reason as above the program's scan resets the run between two consecutive
  days where the clocks go back. In New York, with login days 2024-11-02, 2024-11-03 and
  2024-11-04 (days 20029 to 20031) and \<open>today\<close> 2024-11-07 (day 20034), the stored current
  streak is 0 and the stored longest streak is 2, where the claim says 0 and 3.
\<close>

theorem longestStreak_where_clocks_go_back:
  "login_dates \<lparr>login_history = [(1, 20029), (1, 20030), (1, 20031)], streak_tracking = Map.empty\<rparr> 1
     = {20034 - 5, 20034 - 4, 20034 - 3}
   \<and> map_option (\<lambda>row. (current_streak row, longest_streak row))
        (streak_tracking
          (snd (updateStreak new_york no_faults 20034 1
                 \<lparr>login_history = [(1, 20029), (1, 20030), (1, 20031)],
                    streak_tracking = Map.empty\<rparr>)) 1) = Some (0, 2)
   \<and> spec_currentStreak calendar_days 20034 (descending {20034 - 5, 20034 - 4, 20034 - 3}) = 0
   \<and> spec_longestStreak calendar_days 20034 (descending {20034 - 5, 20034 - 4, 20034 - 3}) = 3"
proof -
  have a: "login_dates \<lparr>login_history = [(1, 20029), (1, 20030), (1, 20031)],
                         streak_tracking = Map.empty\<rparr> 1 = {20034 - 5, 20034 - 4, 20034 - 3}"
    by (auto simp: login_dates_def)
  have b: "map_option (\<lambda>row. (current_streak row, longest_streak row))
        (streak_tracking
          (snd (updateStreak new_york no_faults 20034 1
                 \<lparr>login_history = [(1, 20029), (1, 20030), (1, 20031)],
                    streak_tracking = Map.empty\<rparr>)) 1) = Some (0, 2)"
    by code_simp
  have c: "spec_currentStreak calendar_days 20034 (descending {20034 - 5, 20034 - 4, 20034 - 3}) = 0"
    by code_simp
  have d: "spec_longestStreak calendar_days 20034 (descending {20034 - 5, 20034 - 4, 20034 - 3}) = 3"
    by code_simp
  from a b c d show ?thesis by (simp only: simp_thms)
qed

subsection \<open>Bounds on the counters\<close>

lemma consecutive_pairs_bound: "consecutive_pairs_at_head dd ds \<le> length ds - 1"
proof -
  have "consecutive_pairs_at_head dd ds \<le> length (zip ds (tl ds))"
    unfolding consecutive_pairs_at_head_def by (rule length_takeWhile_le)
  then show ?thesis by simp
qed

lemma spec_currentStreak_bounds:
  assumes "ds \<noteq> []"
  shows "0 \<le> spec_currentStreak dd today ds" and "spec_currentStreak dd today ds \<le> int (length ds)"
proof -
  show "0 \<le> spec_currentStreak dd today ds" by (simp add: spec_currentStreak_def)
  from assms have "0 < length ds" by simp
  with consecutive_pairs_bound [of dd ds]
  have "1 + int (consecutive_pairs_at_head dd ds) \<le> int (length ds)" by linarith
  then show "spec_currentStreak dd today ds \<le> int (length ds)"
    by (simp add: spec_currentStreak_def)
qed

lemma spec_scan_bound:
  "1 \<le> run \<Longrightarrow> spec_scan dd ds run best \<le> max best (run + int (length ds) - 1)"
proof (induction dd ds run best rule: spec_scan.induct)
  case (1 dd a b ds run best)
  show ?case
  proof (cases "dd a b = 1")
    case True
    with 1 have "spec_scan dd (b # ds) (run + 1) (max best (run + 1))
                   \<le> max (max best (run + 1)) (run + 1 + int (length (b # ds)) - 1)"
      by simp
    with True show ?thesis by simp
  next
    case False
    with 1 have "spec_scan dd (b # ds) 1 best \<le> max best (1 + int (length (b # ds)) - 1)"
      by simp
    with False "1.prems" show ?thesis by simp
  qed
qed simp_all

lemma summary_invariant_streak_summary:
  assumes "logins \<noteq> []"
  shows "summary_invariant (streak_summary z today logins)"
proof -
  let ?ds = "sortedDates_of logins"
  have len: "length ?ds = length logins" by (simp add: sortedDates_of_def)
  have ne: "?ds \<noteq> []" using assms by (rule sortedDates_nonempty)
  have pos: "1 \<le> int (length logins)" using assms by (cases logins) simp_all
  have "spec_scan (library_days z) ?ds 1 1 \<le> max 1 (1 + int (length ?ds) - 1)"
    by (rule spec_scan_bound) simp
  with pos len have scan: "spec_scan (library_days z) ?ds 1 1 \<le> int (length logins)" by simp
  have cur: "0 \<le> spec_currentStreak (library_days z) today ?ds"
    "spec_currentStreak (library_days z) today ?ds \<le> int (length logins)"
    using spec_currentStreak_bounds [OF ne, of "library_days z" today] len by simp_all
  have total: "total_login_days (streak_summary z today logins) = int (length logins)"
    by (simp add: streak_summary_def Let_def)
  show ?thesis
    unfolding summary_invariant_def current_streak_summary [OF assms]
      longest_streak_summary [OF assms] total spec_longestStreak_def
    using scan cur by simp
qed

lemma summary_invariant_zero_row: "summary_invariant zero_row"
  by (simp add: summary_invariant_def zero_row_def)

subsection \<open>What each operation changes\<close>

lemma selected_dates_streak_tracking_update [simp]:
  "selected_dates sid (st\<lparr>streak_tracking := m\<rparr>) = selected_dates sid st"
  by (simp add: selected_dates_def)

lemma login_dates_streak_tracking_update [simp]:
  "login_dates (st\<lparr>streak_tracking := m\<rparr>) sid = login_dates st sid"
  by (simp add: login_dates_def)

lemma login_history_updateStreak:
  "login_history (snd (updateStreak z f today sid st)) = login_history st"
  by (simp add: updateStreak_eq split: option.splits)

lemma streak_tracking_updateStreak:
  "streak_tracking (snd (updateStreak z f today sid st)) =
     (if f LoginSelect = None \<and> login_dates st sid \<noteq> {} \<and> f StreakUpsert = None
      then (streak_tracking st)(sid \<mapsto> streak_summary z today (selected_dates sid st))
      else streak_tracking st)"
  using selected_dates_nonempty [of sid st] by (auto simp: updateStreak_eq split: option.splits)

lemma streak_tracking_login_upsert:
  "streak_tracking (snd (login_upsert f sid d st)) = streak_tracking st"
  by (simp add: login_upsert_def split: option.splits)

lemma login_dates_login_upsert:
  "login_dates (snd (login_upsert f sid d st)) sid' =
     (if f LoginUpsert = None \<and> sid' = sid then insert d (login_dates st sid')
      else login_dates st sid')"
  by (auto simp: login_upsert_def login_dates_def image_iff split: option.splits)

lemma distinct_login_upsert:
  "distinct (login_history st) \<Longrightarrow> distinct (login_history (snd (login_upsert f sid d st)))"
  by (simp add: login_upsert_def split: option.splits)

lemma recordLogin_eq:
  "recordLogin z f today sid st =
     (case f LoginUpsert of
        Some e \<Rightarrow> (Some e, st)
      | None \<Rightarrow> (None, snd (updateStreak z f today sid (snd (login_upsert f sid today st)))))"
  by (simp add: recordLogin_def login_upsert_def split: option.splits prod.splits)

lemma login_dates_updateStreak:
  "login_dates (snd (updateStreak z f today sid st)) sid' = login_dates st sid'"
  by (simp add: login_dates_def login_history_updateStreak)

lemma login_dates_recordLogin:
  "login_dates (snd (recordLogin z f today sid st)) sid' =
     (if f LoginUpsert = None \<and> sid' = sid then insert today (login_dates st sid')
      else login_dates st sid')"
  by (simp add: recordLogin_eq login_dates_updateStreak login_dates_login_upsert
      split: option.splits)

lemma distinct_recordLogin:
  "distinct (login_history st) \<Longrightarrow> distinct (login_history (snd (recordLogin z f today sid st)))"
  by (simp add: recordLogin_eq login_history_updateStreak distinct_login_upsert
      split: option.splits)

lemma streak_tracking_recordLogin:
  "streak_tracking (snd (recordLogin z f today sid st)) =
     (if f LoginUpsert = None \<and> f LoginSelect = None \<and> f StreakUpsert = None
      then (streak_tracking st)(sid \<mapsto>
             streak_summary z today (selected_dates sid (snd (login_upsert f sid today st))))
      else streak_tracking st)"
  by (simp add: recordLogin_eq streak_tracking_updateStreak streak_tracking_login_upsert
      login_dates_login_upsert split: option.splits)

lemma streak_tracking_streak_insert:
  "streak_tracking (snd (streak_insert f sid row st)) =
     (if f StreakInsert = None \<and> streak_tracking st sid = None
      then (streak_tracking st)(sid \<mapsto> row) else streak_tracking st)"
  by (simp add: streak_insert_def split: option.splits)

lemma login_dates_streak_insert:
  "login_dates (snd (streak_insert f sid row st)) sid' = login_dates st sid'"
  by (simp add: streak_insert_def login_dates_def split: option.splits)

lemma getStreakData_snd:
  "snd (getStreakData f sid st) =
     (if f StreakSingle = None \<and> streak_tracking st sid = None
      then snd (streak_insert f sid zero_row st) else
      if (\<exists>e. f StreakSingle = Some e \<and> code e = ''PGRST116'')
      then snd (streak_insert f sid zero_row st) else st)"
  by (auto simp: getStreakData_def streak_single_def PGRST116_def
      split: option.splits prod.splits)

lemma streak_tracking_getStreakData:
  "streak_tracking (snd (getStreakData f sid st)) = streak_tracking st \<or>
   streak_tracking (snd (getStreakData f sid st)) = (streak_tracking st)(sid \<mapsto> zero_row)
     \<and> streak_tracking st sid = None"
  by (simp add: getStreakData_snd streak_tracking_streak_insert)

lemma login_dates_getStreakData:
  "login_dates (snd (getStreakData f sid st)) sid' = login_dates st sid'"
  by (simp add: getStreakData_snd login_dates_streak_insert)

subsection \<open>Invariants of the reachable stores\<close>

lemma reachable_summary_invariant:
  "reachable st \<Longrightarrow> streak_tracking st sid = Some row \<Longrightarrow> summary_invariant row"
proof (induction arbitrary: sid row rule: reachable.induct)
  case start
  then show ?case by (simp add: empty_store_def)
next
  case (signUp st f sid' sid row)
  then show ?case
    by (auto simp: streak_tracking_streak_insert summary_invariant_zero_row
        split: if_splits)
next
  case (login st z f today sid' sid row)
  have "selected_dates sid' (snd (login_upsert f sid' today st)) \<noteq> []"
    if "f LoginUpsert = None"
    using that by (simp add: selected_dates_nonempty login_dates_login_upsert)
  with login show ?case
    by (auto simp: streak_tracking_recordLogin summary_invariant_streak_summary
        split: if_splits)
next
  case (update st z f today sid' sid row)
  have "summary_invariant (streak_summary z today (selected_dates sid' st))"
    if "login_dates st sid' \<noteq> {}"
    using that by (simp add: selected_dates_nonempty summary_invariant_streak_summary)
  with update show ?case
    by (auto simp: streak_tracking_updateStreak split: if_splits)
next
  case (read st f sid' sid row)
  with streak_tracking_getStreakData [of f sid' st] show ?case
    by (auto simp: summary_invariant_zero_row split: if_splits)
qed

lemma reachable_distinct: "reachable st \<Longrightarrow> distinct (login_history st)"
proof (induction rule: reachable.induct)
  case start
  then show ?case by (simp add: empty_store_def)
next
  case (signUp st f sid)
  then show ?case by (simp add: streak_insert_def split: option.splits)
next
  case (login st z f today sid)
  from login.IH show ?case by (rule distinct_recordLogin)
next
  case (update st z f today sid)
  then show ?case by (simp add: login_history_updateStreak)
next
  case (read st f sid)
  then show ?case by (simp add: getStreakData_snd streak_insert_def split: option.splits)
qed

text \<open>A student without login days has no summary row or the zero row.\<close>

lemma reachable_no_logins_zero:
  "reachable st \<Longrightarrow> login_dates st sid = {} \<Longrightarrow> streak_tracking st sid = Some row
     \<Longrightarrow> row = zero_row"
proof (induction arbitrary: sid row rule: reachable.induct)
  case start
  then show ?case by (simp add: empty_store_def)
next
  case (signUp st f sid' sid row)
  then show ?case
    by (auto simp: streak_tracking_streak_insert login_dates_streak_insert split: if_splits)
next
  case (login st z f today sid' sid row)
  then show ?case
    by (auto simp: streak_tracking_recordLogin login_dates_recordLogin split: if_splits)
next
  case (update st z f today sid' sid row)
  then show ?case
    by (auto simp: streak_tracking_updateStreak login_dates_updateStreak split: if_splits)
next
  case (read st f sid' sid row)
  with streak_tracking_getStreakData [of f sid' st] show ?case
    by (auto simp: login_dates_getStreakData split: if_splits)
qed

subsection \<open>The invariant of the summary\<close>

text \<open>
  Claim C5. Every summary row the engine writes satisfies
  \<open>longestStreak \<ge> currentStreak\<close> and \<open>totalLoginDays \<ge> longestStreak\<close>: the row that
  \<^verbatim>\<open>updateStreak\<close> computes from any non-empty list of login days and any \<open>today\<close>, in
  any time zone, does, and so does every row of \<^verbatim>\<open>streak_tracking\<close> in every store the
  application can reach.
\<close>

theorem summary_rows_ordered:
  "(logins \<noteq> [] \<longrightarrow>
      current_streak (streak_summary z today logins) \<le> longest_streak (streak_summary z today logins)
      \<and> longest_streak (streak_summary z today logins)
          \<le> total_login_days (streak_summary z today logins))
   \<and> (reachable st \<longrightarrow> streak_tracking st sid = Some row \<longrightarrow>
        current_streak row \<le> longest_streak row \<and> longest_streak row \<le> total_login_days row)"
  using summary_invariant_streak_summary [of logins z today]
    reachable_summary_invariant [of st sid row]
  by (simp add: summary_invariant_def)

theorem summary_rows_ordered_witness:
  "[9, 10 :: int] \<noteq> []
   \<and> reachable (snd (recordLogin (fixed_zone 0) no_faults 10 1 empty_store))
   \<and> streak_tracking (snd (recordLogin (fixed_zone 0) no_faults 10 1 empty_store)) 1
       = Some \<lparr>current_streak = 1, longest_streak = 1, last_login_date = Some 10,
               total_login_days = 1\<rparr>
   \<and> current_streak (streak_summary (fixed_zone 0) 10 [9, 10])
       \<le> longest_streak (streak_summary (fixed_zone 0) 10 [9, 10])
   \<and> longest_streak (streak_summary (fixed_zone 0) 10 [9, 10])
       \<le> total_login_days (streak_summary (fixed_zone 0) 10 [9, 10])"
proof -
  let ?st = "snd (recordLogin (fixed_zone 0) no_faults 10 1 empty_store)"
  let ?row = "\<lparr>current_streak = 1, longest_streak = 1, last_login_date = Some 10,
               total_login_days = 1\<rparr>"
  have r: "reachable ?st" by (rule reachable.login [OF reachable.start])
  have s: "streak_tracking ?st 1 = Some ?row"
    by code_simp
  have n: "[9, 10 :: int] \<noteq> []" by simp
  from summary_rows_ordered [of "[9, 10]" "fixed_zone 0" 10 ?st 1 ?row] r s n show ?thesis by simp
qed

subsection \<open>Recording a login twice\<close>

lemma updateStreak_twice:
  "updateStreak z f today sid (snd (updateStreak z f today sid st)) = updateStreak z f today sid st"
  by (simp add: updateStreak_eq split: option.splits)

lemma login_upsert_present:
  "(sid, d) \<in> set (login_history st) \<Longrightarrow> f LoginUpsert = None
     \<Longrightarrow> login_upsert f sid d st = (None, st)"
  by (simp add: login_upsert_def)

lemma login_upsert_adds:
  "f LoginUpsert = None \<Longrightarrow> (sid, d) \<in> set (login_history (snd (login_upsert f sid d st)))"
  by (simp add: login_upsert_def)

lemma recordLogin_twice:
  "recordLogin z f today sid (snd (recordLogin z f today sid st)) = recordLogin z f today sid st"
proof (cases "f LoginUpsert")
  case (Some e)
  then show ?thesis by (simp add: recordLogin_eq)
next
  case None
  let ?st1 = "snd (login_upsert f sid today st)"
  let ?st2 = "snd (updateStreak z f today sid ?st1)"
  have once: "recordLogin z f today sid st = (None, ?st2)"
    using None by (simp add: recordLogin_eq)
  have "(sid, today) \<in> set (login_history ?st2)"
    using None by (simp add: login_history_updateStreak login_upsert_adds)
  then have "login_upsert f sid today ?st2 = (None, ?st2)"
    using None by (rule login_upsert_present)
  then have "recordLogin z f today sid ?st2 = (None, snd (updateStreak z f today sid ?st2))"
    using None by (simp add: recordLogin_eq)
  also have "snd (updateStreak z f today sid ?st2) = ?st2"
    by (simp add: updateStreak_twice)
  finally show ?thesis using once by simp
qed

lemma total_login_days_streak_summary:
  "total_login_days (streak_summary z today logins) = int (length logins)"
  by (simp add: streak_summary_def Let_def)

lemma length_selected_dates:
  "distinct (login_history st) \<Longrightarrow> length (selected_dates sid st) = card (login_dates st sid)"
  using distinct_card [OF distinct_selected_dates, of st sid]
  by (simp add: set_selected_dates)

text \<open>
  Claim C6. Recording a login twice for the same student and day leaves the same result
  and the same store, hence the same summary, as recording it once, whichever requests
  fail (the same ones in both calls). When no request fails the second call succeeds, and
  with unique login rows the stored \<^verbatim>\<open>total_login_days\<close> is the number of distinct
  login days, the day just recorded counted once.
\<close>

theorem recordLogin_idempotent:
  "recordLogin z f today sid (snd (recordLogin z f today sid st)) = recordLogin z f today sid st
   \<and> fst (recordLogin z no_faults today sid (snd (recordLogin z no_faults today sid st))) = None
   \<and> (distinct (login_history st) \<longrightarrow>
        map_option total_login_days
          (streak_tracking
            (snd (recordLogin z no_faults today sid (snd (recordLogin z no_faults today sid st)))) sid)
          = Some (int (card (insert today (login_dates st sid)))))"
proof -
  let ?st1 = "snd (login_upsert no_faults sid today st)"
  have ok: "fst (recordLogin z no_faults today sid st) = None"
    by (simp add: recordLogin_eq no_faults_def)
  have total: "map_option total_login_days
                 (streak_tracking (snd (recordLogin z no_faults today sid st)) sid)
                 = Some (int (card (insert today (login_dates st sid))))"
    if d: "distinct (login_history st)"
  proof -
    have "distinct (login_history ?st1)" using d by (rule distinct_login_upsert)
    then have "length (selected_dates sid ?st1) = card (login_dates ?st1 sid)"
      by (rule length_selected_dates)
    also have "login_dates ?st1 sid = insert today (login_dates st sid)"
      by (simp add: login_dates_login_upsert no_faults_def)
    finally show ?thesis
      by (simp add: streak_tracking_recordLogin total_login_days_streak_summary no_faults_def)
  qed
  show ?thesis
    using ok total by (simp add: recordLogin_twice)
qed

theorem recordLogin_idempotent_witness:
  "distinct [(1::nat, 9::int)]
   \<and> map_option total_login_days
        (streak_tracking
          (snd (recordLogin (fixed_zone 0) no_faults 10 1
            (snd (recordLogin (fixed_zone 0) no_faults 10 1
              \<lparr>login_history = [(1, 9)], streak_tracking = Map.empty\<rparr>)))) 1)
       = Some 2
   \<and> recordLogin (fixed_zone 0) no_faults 10 1
        (snd (recordLogin (fixed_zone 0) no_faults 10 1
               \<lparr>login_history = [(1, 9)], streak_tracking = Map.empty\<rparr>))
       = recordLogin (fixed_zone 0) no_faults 10 1
           \<lparr>login_history = [(1, 9)], streak_tracking = Map.empty\<rparr>"
proof -
  let ?st = "\<lparr>login_history = [(1::nat, 9::int)], streak_tracking = Map.empty\<rparr>"
  have d: "distinct (login_history ?st)" by simp
  have c: "int (card (insert 10 (login_dates ?st 1))) = 2" by (simp add: login_dates_def)
  note t = recordLogin_idempotent [of "fixed_zone 0" no_faults 10 1 ?st]
  from t have same: "recordLogin (fixed_zone 0) no_faults 10 1 (snd (recordLogin (fixed_zone 0) no_faults 10 1 ?st))
                       = recordLogin (fixed_zone 0) no_faults 10 1 ?st"
    by (rule conjunct1)
  from t [THEN conjunct2, THEN conjunct2, rule_format, OF d] c
  have "map_option total_login_days
          (streak_tracking
            (snd (recordLogin (fixed_zone 0) no_faults 10 1 (snd (recordLogin (fixed_zone 0) no_faults 10 1 ?st)))) 1) = Some 2"
    by (simp only:)
  with same show ?thesis by (simp only: distinct_singleton simp_thms)
qed

subsection \<open>A student without login days\<close>

text \<open>
  Claim C4, as the code has it. For a student whose set of login days is empty,
  \<^verbatim>\<open>updateStreak\<close> writes nothing: the store it leaves is the store it found, and when
  the read of the login history goes through it returns success.
\<close>

theorem updateStreak_empty_history:
  "login_dates st sid = {} \<Longrightarrow>
     snd (updateStreak z f today sid st) = st
     \<and> (f LoginSelect = None \<longrightarrow> updateStreak z f today sid st = (None, st))"
  using selected_dates_nonempty [of sid st] by (simp add: updateStreak_eq split: option.splits)

theorem updateStreak_empty_history_witness:
  "login_dates empty_store 1 = {} \<and> no_faults LoginSelect = None
   \<and> updateStreak (fixed_zone 0) no_faults 10 1 empty_store = (None, empty_store)"
proof -
  have e: "login_dates empty_store 1 = {}" by (simp add: login_dates_def empty_store_def)
  have f: "no_faults LoginSelect = None" by (simp add: no_faults_def)
  from updateStreak_empty_history [OF e, of "fixed_zone 0" no_faults 10] e f show ?thesis by simp
qed

text \<open>The claim as the specification words it fails: with empty tables no zero summary
  is written, the student has no summary row after the call.\<close>

theorem updateStreak_no_logins_counterexample:
  "login_dates empty_store 1 = {}
   \<and> fst (updateStreak (fixed_zone 0) no_faults 10 1 empty_store) = None
   \<and> streak_tracking (snd (updateStreak (fixed_zone 0) no_faults 10 1 empty_store)) 1 = None
   \<and> streak_tracking (snd (updateStreak (fixed_zone 0) no_faults 10 1 empty_store)) 1
       \<noteq> Some \<lparr>current_streak = 0, longest_streak = 0, last_login_date = None,
                total_login_days = 0\<rparr>"
  by (simp add: login_dates_def empty_store_def updateStreak_eq no_faults_def selected_dates_def)

subsection \<open>Errors of the store in \<^verbatim>\<open>recordLogin\<close>\<close>

lemma recordLogin_upsert_error:
  "f LoginUpsert = Some e \<Longrightarrow> recordLogin z f today sid st = (Some e, st)"
  by (simp add: recordLogin_eq)

lemma recordLogin_success_after_upsert:
  "f LoginUpsert = None \<Longrightarrow> fst (recordLogin z f today sid st) = None"
  by (simp add: recordLogin_eq)

text \<open>
  Claim C3 asks that a failure of the login-row upsert, of the login-history read or of
  the summary write makes \<^verbatim>\<open>recordLogin\<close> return that error. The code does so for the
  upsert only. Evaluated on empty tables for student 1 on day 10, in any time zone: when
  the summary write fails with an error, \<^verbatim>\<open>updateStreak\<close> returns the error and
  \<^verbatim>\<open>recordLogin\<close> returns success, with the login row stored and no summary; when the
  login-history read fails, likewise.
\<close>

theorem recordLogin_loses_updateStreak_error:
  "fst (updateStreak z (no_faults(StreakUpsert := Some (ApiError ''503''))) 10 1
          \<lparr>login_history = [(1, 10)], streak_tracking = Map.empty\<rparr>) = Some (ApiError ''503'')
   \<and> recordLogin z (no_faults(StreakUpsert := Some (ApiError ''503''))) 10 1 empty_store
       = (None, \<lparr>login_history = [(1, 10)], streak_tracking = Map.empty\<rparr>)
   \<and> fst (updateStreak z (no_faults(LoginSelect := Some (ApiError ''503''))) 10 1
          \<lparr>login_history = [(1, 10)], streak_tracking = Map.empty\<rparr>) = Some (ApiError ''503'')
   \<and> recordLogin z (no_faults(LoginSelect := Some (ApiError ''503''))) 10 1 empty_store
       = (None, \<lparr>login_history = [(1, 10)], streak_tracking = Map.empty\<rparr>)"
  by (simp add: recordLogin_eq updateStreak_eq no_faults_def login_upsert_def empty_store_def
      selected_dates_def)

subsection \<open>Streak maintenance\<close>

lemma filter_key_distinct:
  "distinct rows \<Longrightarrow>
     filter (\<lambda>r. fst r = sid \<and> snd r = d) rows = (if (sid, d) \<in> set rows then [(sid, d)] else [])"
proof (induction rows)
  case Nil
  then show ?case by simp
next
  case (Cons r rows)
  then show ?case by (cases r) (auto simp: filter_empty_conv)
qed

lemma login_single_found:
  assumes "distinct (login_history st)" "f (LoginSingle d) = None"
  shows "login_single f sid d st =
           (if d \<in> login_dates st sid then \<lparr>data = Some d, error = None\<rparr>
            else \<lparr>data = None, error = Some PGRST116\<rparr>, st)"
proof -
  have "d \<in> login_dates st sid \<longleftrightarrow> (sid, d) \<in> set (login_history st)"
    by (auto simp: login_dates_def image_iff)
  then show ?thesis
    using assms by (simp add: login_single_def filter_key_distinct)
qed

lemma needsStreakMaintenance_reads_only: "snd (needsStreakMaintenance f today sid st) = st"
  by (simp add: needsStreakMaintenance_def login_single_def Let_def
      split: option.splits list.splits prod.splits)

lemma needsStreakMaintenance_value:
  assumes "distinct (login_history st)"
    and "f (LoginSingle today) = None" and "f (LoginSingle (today - 1)) = None"
  shows "fst (needsStreakMaintenance f today sid st) =
           (today - 1 \<in> login_dates st sid \<and> today \<notin> login_dates st sid, None)"
  using assms login_single_found [of st f today sid] login_single_found [of st f "today - 1" sid]
  by (simp add: needsStreakMaintenance_def Let_def)

text \<open>The \<^verbatim>\<open>error\<close> of a failed read is dropped: the read counts as "no row", and the
  result carries no error.\<close>

lemma needsStreakMaintenance_failed_read:
  "f (LoginSingle today) = Some e \<Longrightarrow>
     snd (fst (needsStreakMaintenance f today sid st)) = None
     \<and> fst (fst (needsStreakMaintenance f today sid st))
         = (data (fst (login_single f sid (today - 1) st)) \<noteq> None)"
  by (simp add: needsStreakMaintenance_def login_single_def Let_def
      split: option.splits list.splits prod.splits)

text \<open>
  Claim C8. With unique login rows and both reads going through, \<^verbatim>\<open>needsStreakMaintenance\<close>
  returns true exactly when the student has a login row for \<open>today - 1\<close> and none for
  \<open>today\<close>, with no error. It writes nothing: the store, so the login history and the
  stored summary, is the same after the query. Once \<^verbatim>\<open>recordLogin\<close> has stored the login
  for \<open>today\<close> the answer is false.
\<close>

theorem needsStreakMaintenance_iff:
  assumes "distinct (login_history st)"
    and "f (LoginSingle today) = None" and "f (LoginSingle (today - 1)) = None"
  shows "fst (needsStreakMaintenance f today sid st) =
           (today - 1 \<in> login_dates st sid \<and> today \<notin> login_dates st sid, None)
         \<and> snd (needsStreakMaintenance f today sid st) = st
         \<and> (f LoginUpsert = None \<longrightarrow>
              fst (needsStreakMaintenance f today sid (snd (recordLogin z f today sid st)))
                = (False, None))"
proof -
  have "fst (needsStreakMaintenance f today sid (snd (recordLogin z f today sid st)))
          = (False, None)"
    if up: "f LoginUpsert = None"
  proof -
    have "distinct (login_history (snd (recordLogin z f today sid st)))"
      using assms(1) by (rule distinct_recordLogin)
    with needsStreakMaintenance_value [of "snd (recordLogin z f today sid st)" f today sid]
      assms(2,3) up
    show ?thesis by (simp add: login_dates_recordLogin)
  qed
  with needsStreakMaintenance_value [of st f today sid] assms
    needsStreakMaintenance_reads_only [of f today sid st]
  show ?thesis by simp
qed

theorem needsStreakMaintenance_iff_witness:
  "distinct [(1::nat, 9::int)]
   \<and> no_faults (LoginSingle 10) = None \<and> no_faults (LoginSingle (10 - 1)) = None
   \<and> no_faults LoginUpsert = None
   \<and> fst (needsStreakMaintenance no_faults 10 1
            \<lparr>login_history = [(1, 9)], streak_tracking = Map.empty\<rparr>) = (True, None)
   \<and> fst (needsStreakMaintenance no_faults 10 1
            (snd (recordLogin (fixed_zone 0) no_faults 10 1
                   \<lparr>login_history = [(1, 9)], streak_tracking = Map.empty\<rparr>))) = (False, None)"
proof -
  let ?st = "\<lparr>login_history = [(1::nat, 9::int)], streak_tracking = Map.empty\<rparr>"
  have d: "distinct (login_history ?st)" by simp
  have f: "no_faults (LoginSingle 10) = None" "no_faults (LoginSingle (10 - 1)) = None"
    "no_faults LoginUpsert = None"
    by (simp_all add: no_faults_def)
  have l: "login_dates ?st 1 = {9}" by (simp add: login_dates_def)
  from needsStreakMaintenance_iff [of ?st no_faults 10 1 "fixed_zone 0"] d f l show ?thesis by simp
qed

subsection \<open>Reading the summary of a student without logins\<close>

lemma getStreakData_absent:
  assumes "streak_tracking st sid = None" "f StreakSingle = None" "f StreakInsert = None"
  shows "getStreakData f sid st =
           ((Some zero_row, None), st\<lparr>streak_tracking := (streak_tracking st)(sid \<mapsto> zero_row)\<rparr>)"
  using assms
  by (simp add: getStreakData_def streak_single_def streak_insert_def PGRST116_def)

lemma getStreakData_present:
  assumes "streak_tracking st sid = Some row" "f StreakSingle = None"
  shows "getStreakData f sid st = ((Some row, None), st)"
  using assms by (simp add: getStreakData_def streak_single_def)

text \<open>
  Claim C9. In every store the application can reach, for a student without login rows
  and with the read and the insert going through, \<^verbatim>\<open>getStreakData\<close> returns the summary
  with all three counters 0 and no last login date, and no error; after the call the
  student's row exists and is that zero summary, so a missing row is created by the read
  instead of being reported as not found.
\<close>

theorem getStreakData_empty_history:
  assumes "reachable st" and "login_dates st sid = {}"
    and "f StreakSingle = None" and "f StreakInsert = None"
  shows "fst (getStreakData f sid st)
           = (Some \<lparr>current_streak = 0, longest_streak = 0, last_login_date = None,
                     total_login_days = 0\<rparr>, None)
         \<and> streak_tracking (snd (getStreakData f sid st)) sid
             = Some \<lparr>current_streak = 0, longest_streak = 0, last_login_date = None,
                      total_login_days = 0\<rparr>"
proof (cases "streak_tracking st sid")
  case None
  with getStreakData_absent [of st sid f] assms(3,4) show ?thesis
    by (simp add: zero_row_def)
next
  case (Some row)
  with assms(1,2) have "row = zero_row" by (rule reachable_no_logins_zero)
  with getStreakData_present [of st sid row f] Some assms(3) show ?thesis
    by (simp add: zero_row_def)
qed

theorem getStreakData_empty_history_witness:
  "reachable empty_store \<and> login_dates empty_store 1 = {}
   \<and> no_faults StreakSingle = None \<and> no_faults StreakInsert = None
   \<and> fst (getStreakData no_faults 1 empty_store)
       = (Some \<lparr>current_streak = 0, longest_streak = 0, last_login_date = None,
                 total_login_days = 0\<rparr>, None)
   \<and> streak_tracking (snd (getStreakData no_faults 1 empty_store)) 1
       = Some \<lparr>current_streak = 0, longest_streak = 0, last_login_date = None,
                total_login_days = 0\<rparr>"
proof -
  have r: "reachable empty_store" by (rule reachable.start)
  have e: "login_dates empty_store 1 = {}" by (simp add: login_dates_def empty_store_def)
  have f: "no_faults StreakSingle = None" "no_faults StreakInsert = None"
    by (simp_all add: no_faults_def)
  from getStreakData_empty_history [of empty_store 1 no_faults] r e f show ?thesis by simp
qed

end
